theory Spec2Isabelle
  imports Complex_Main
begin

section \<open>The masking canvas of src/components/CanvasBoard.tsx\<close>

text \<open>
  The component keeps seven pieces of React state (\<open>useState\<close>): the viewport
  (\<open>scale\<close>, \<open>offset\<close>), the gesture tracking (\<open>isDragging\<close>, \<open>lastPos\<close>), the mask
  (\<open>paths\<close>, \<open>currentPath\<close>) and the decoded image (\<open>imgObj\<close>). Every handler is
  embedded as a function from the state before the event to the state after it; the
  props the handler closes over (\<open>mode\<close>, \<open>brushSize\<close>) are an argument, because the
  parent may change them between two events.

  Conventions of the embedding:
  \<^item> a TypeScript \<open>number\<close> is a \<open>real\<close>: arithmetic is exact, rounding of IEEE doubles is
    not modelled. HOL's \<open>a / 0\<close> is \<open>0\<close> where JavaScript gives \<open>Infinity\<close> or \<open>NaN\<close>, so
    every statement below that depends on the value of a quotient assumes a non-zero
    divisor;
  \<^item> a handler runs on the state committed by the handler before it (React renders
    between two events, so the closure of a handler holds the current state);
  \<^item> a pointer handler receives the position that \<open>getPointerPos\<close> computed from the
    event (client coordinates minus the canvas rectangle), the wheel handler the same
    difference as \<open>mouse\<close> and the event's \<open>deltaY\<close>.
\<close>

subsection \<open>Types (src/unnamed/part\_000)\<close>

record Point =
  x :: real
  y :: real

record Path =
  points :: "Point list"
  size_path :: real

datatype ToolMode = DRAW | PAN

text \<open>What the component reads of an \<open>HTMLImageElement\<close> and of its container.\<close>

record Image =
  width :: real
  height :: real

record Container =
  clientWidth :: real
  clientHeight :: real

text \<open>The props a handler closes over.\<close>

record Props =
  mode :: ToolMode
  brushSize :: real

record State =
  scale :: real
  offset :: Point
  isDragging :: bool
  lastPos :: Point
  paths :: "Path list"
  currentPath :: "Point list"
  imgObj :: "Image option"

text \<open>The initial values of the \<open>useState\<close> calls.\<close>

definition init_state :: State where
  "init_state =
     \<lparr>scale = 1, offset = \<lparr>x = 0, y = 0\<rparr>, isDragging = False,
      lastPos = \<lparr>x = 0, y = 0\<rparr>, paths = [], currentPath = [], imgObj = None\<rparr>"

subsection \<open>The image-load effect\<close>

text \<open>
  \<open>img.onload\<close>: the argument \<open>cont\<close> is \<open>containerRef.current\<close>, \<open>None\<close> when the ref is
  not attached. \<open>Math.min(scaleX, scaleY, 1)\<close> is the least of its three arguments.
\<close>

definition imageOnload :: "Container option \<Rightarrow> Image \<Rightarrow> State \<Rightarrow> State" where
  "imageOnload cont img s =
     (let s1 = s\<lparr>imgObj := Some img\<rparr>;
          s2 = (case cont of
                  None \<Rightarrow> s1
                | Some c \<Rightarrow>
                    (let scaleX = clientWidth c / width img;
                         scaleY = clientHeight c / height img;
                         fitScale = min (min scaleX scaleY) 1 * 0.9
                     in s1\<lparr>scale := fitScale,
                           offset := \<lparr>x = (clientWidth c - width img * fitScale) / 2,
                                      y = (clientHeight c - height img * fitScale) / 2\<rparr>\<rparr>))
      in s2\<lparr>paths := []\<rparr>)"

text \<open>The \<open>else\<close> branch of the effect: \<open>imageSrc\<close> became null.\<close>

definition imageCleared :: "State \<Rightarrow> State" where
  "imageCleared s = s\<lparr>imgObj := None, paths := []\<rparr>"

subsection \<open>Pointer and wheel handlers\<close>

definition getCanvasCoords :: "State \<Rightarrow> Point \<Rightarrow> Point" where
  "getCanvasCoords s screenPos =
     \<lparr>x = (x screenPos - x (offset s)) / scale s,
      y = (y screenPos - y (offset s)) / scale s\<rparr>"

definition handlePointerDown :: "Props \<Rightarrow> State \<Rightarrow> Point \<Rightarrow> State" where
  "handlePointerDown pr s pos =
     (if imgObj s = None then s
      else
        (let s1 = s\<lparr>isDragging := True, lastPos := pos\<rparr>
         in if mode pr = DRAW then s1\<lparr>currentPath := [getCanvasCoords s pos]\<rparr> else s1))"

definition handlePointerMove :: "Props \<Rightarrow> State \<Rightarrow> Point \<Rightarrow> State" where
  "handlePointerMove pr s pos =
     (if \<not> isDragging s \<or> imgObj s = None then s
      else if mode pr = PAN then
        (let dx = x pos - x (lastPos s);
             dy = y pos - y (lastPos s)
         in s\<lparr>offset := \<lparr>x = x (offset s) + dx, y = y (offset s) + dy\<rparr>, lastPos := pos\<rparr>)
      else if mode pr = DRAW then
        s\<lparr>currentPath := currentPath s @ [getCanvasCoords s pos], lastPos := pos\<rparr>
      else s)"

definition handlePointerUp :: "Props \<Rightarrow> State \<Rightarrow> State" where
  "handlePointerUp pr s =
     (let s1 = (if isDragging s \<and> mode pr = DRAW \<and> length (currentPath s) > 0
                then s\<lparr>paths := paths s @ [\<lparr>points = currentPath s, size_path = brushSize pr\<rparr>]\<rparr>
                else s)
      in s1\<lparr>isDragging := False, currentPath := []\<rparr>)"

definition handleWheel :: "State \<Rightarrow> Point \<Rightarrow> real \<Rightarrow> State" where
  "handleWheel s mouse deltaY =
     (if imgObj s = None then s
      else
        (let zoomSensitivity = 0.001;
             delta = - deltaY * zoomSensitivity;
             newScale = min (max 0.1 (scale s + delta)) 10;
             scaleRatio = newScale / scale s;
             newOffsetX = x mouse - (x mouse - x (offset s)) * scaleRatio;
             newOffsetY = y mouse - (y mouse - y (offset s)) * scaleRatio
         in s\<lparr>scale := newScale, offset := \<lparr>x = newOffsetX, y = newOffsetY\<rparr>\<rparr>))"

subsection \<open>The imperative handle: resetMask and undo\<close>

text \<open>
  \<open>Array.prototype.slice(start, end)\<close>: a negative index counts from the end, and both
  indices are clamped to the array.
\<close>

definition slice :: "'a list \<Rightarrow> int \<Rightarrow> int \<Rightarrow> 'a list" where
  "slice xs start endIdx =
     (let len = int (length xs);
          k = (if start < 0 then max (len + start) 0 else min start len);
          final = (if endIdx < 0 then max (len + endIdx) 0 else min endIdx len)
      in take (nat (final - k)) (drop (nat k) xs))"

definition resetMask :: "State \<Rightarrow> State" where
  "resetMask s = s\<lparr>paths := []\<rparr>"

definition undo :: "State \<Rightarrow> State" where
  "undo s = s\<lparr>paths := slice (paths s) 0 (- 1)\<rparr>"

subsection \<open>The 2D canvas the mask is drawn on\<close>

text \<open>
  \<open>getMaskDataURL\<close> draws on an off-screen \<open>canvas\<close> element through its 2D context.
  The browser's canvas is modelled as far as the calls of the source reach: the
  attributes the source assigns, the current path (a list of subpaths) and, in order,
  the painting operations that reached the bitmap, each with the attributes it was
  painted with. The bitmap, and so the PNG that \<open>toDataURL\<close> encodes, is a function of
  the canvas size and of this list.
\<close>

datatype DrawOp =
    FillRect string real real real real
  | Stroke string real string string "Point list list"

record Canvas =
  canvas_width :: real
  canvas_height :: real
  fillStyle :: string
  strokeStyle :: string
  lineCap :: string
  lineJoin :: string
  lineWidth :: real
  curPath :: "Point list list"
  drawn :: "DrawOp list"

text \<open>\<open>document.createElement('canvas')\<close>: 300 by 150, the context at its defaults.\<close>

definition createCanvas :: Canvas where
  "createCanvas =
     \<lparr>canvas_width = 300, canvas_height = 150, fillStyle = ''#000000'',
      strokeStyle = ''#000000'', lineCap = ''butt'', lineJoin = ''miter'', lineWidth = 1,
      curPath = [], drawn = []\<rparr>"

definition fillRect :: "Canvas \<Rightarrow> real \<Rightarrow> real \<Rightarrow> real \<Rightarrow> real \<Rightarrow> Canvas" where
  "fillRect c rx ry rw rh = c\<lparr>drawn := drawn c @ [FillRect (fillStyle c) rx ry rw rh]\<rparr>"

definition beginPath :: "Canvas \<Rightarrow> Canvas" where
  "beginPath c = c\<lparr>curPath := []\<rparr>"

text \<open>The setter of \<open>lineWidth\<close> ignores a value that is not positive.\<close>

definition set_lineWidth :: "Canvas \<Rightarrow> real \<Rightarrow> Canvas" where
  "set_lineWidth c w = (if 0 < w then c\<lparr>lineWidth := w\<rparr> else c)"

definition moveTo :: "Canvas \<Rightarrow> Point \<Rightarrow> Canvas" where
  "moveTo c p = c\<lparr>curPath := curPath c @ [[p]]\<rparr>"

text \<open>\<open>lineTo\<close> on an empty path starts a subpath, otherwise it extends the last one.\<close>

definition lineTo :: "Canvas \<Rightarrow> Point \<Rightarrow> Canvas" where
  "lineTo c p =
     (if curPath c = [] then c\<lparr>curPath := [[p]]\<rparr>
      else c\<lparr>curPath := butlast (curPath c) @ [last (curPath c) @ [p]]\<rparr>)"

text \<open>
  \<open>stroke()\<close> paints the subpaths of the current path that contain a line, that is those
  of two points or more: a subpath of a single point (a \<open>moveTo\<close> with no \<open>lineTo\<close>) is
  dropped before painting. Nothing reaches the bitmap when no subpath is left.
\<close>

definition stroke :: "Canvas \<Rightarrow> Canvas" where
  "stroke c =
     (let lines = filter (\<lambda>sp. 2 \<le> length sp) (curPath c)
      in if lines = [] then c
         else c\<lparr>drawn := drawn c @
                [Stroke (strokeStyle c) (lineWidth c) (lineCap c) (lineJoin c) lines]\<rparr>)"

subsection \<open>getMaskDataURL\<close>

text \<open>The callback of \<open>paths.forEach\<close>; its \<open>for\<close> loop runs \<open>i\<close> from 1 to \<open>length - 1\<close>.\<close>

definition drawMaskPath :: "Canvas \<Rightarrow> Path \<Rightarrow> Canvas" where
  "drawMaskPath ctx path =
     (if length (points path) < 1 then ctx
      else
        (let c1 = beginPath ctx;
             c2 = set_lineWidth c1 (size_path path);
             c3 = moveTo c2 (points path ! 0);
             c4 = foldl (\<lambda>c i. lineTo c (points path ! i)) c3 [1 ..< length (points path)]
         in stroke c4))"

text \<open>
  \<open>toDataURL\<close> is the browser's encoder of the finished canvas, \<open>hasContext\<close> tells
  whether \<open>maskCanvas.getContext('2d')\<close> gave a context (the source returns null when it
  did not).
\<close>

definition getMaskDataURL :: "(Canvas \<Rightarrow> 'u) \<Rightarrow> bool \<Rightarrow> State \<Rightarrow> 'u option" where
  "getMaskDataURL toDataURL hasContext s =
     (case imgObj s of
        None \<Rightarrow> None
      | Some img \<Rightarrow>
          (let maskCanvas = createCanvas\<lparr>canvas_width := width img, canvas_height := height img\<rparr>
           in if \<not> hasContext then None
              else
                (let c1 = maskCanvas\<lparr>fillStyle := ''black''\<rparr>;
                     c2 = fillRect c1 0 0 (canvas_width c1) (canvas_height c1);
                     c3 = c2\<lparr>lineCap := ''round'', lineJoin := ''round'', strokeStyle := ''white''\<rparr>;
                     c4 = foldl drawMaskPath c3 (paths s)
                 in Some (toDataURL c4))))"

subsection \<open>Events\<close>

text \<open>
  Everything that changes the state of the component, as one event type, so that a
  run of the component is a list of events.
\<close>

datatype Event =
    ImageLoaded "Container option" Image
  | ImageCleared
  | PointerDown Props Point
  | PointerMove Props Point
  | PointerUp Props
  | Wheel Point real
  | ResetMask
  | Undo

fun step :: "State \<Rightarrow> Event \<Rightarrow> State" where
  "step s (ImageLoaded cont img) = imageOnload cont img s"
| "step s ImageCleared = imageCleared s"
| "step s (PointerDown pr pos) = handlePointerDown pr s pos"
| "step s (PointerMove pr pos) = handlePointerMove pr s pos"
| "step s (PointerUp pr) = handlePointerUp pr s"
| "step s (Wheel mouse deltaY) = handleWheel s mouse deltaY"
| "step s ResetMask = resetMask s"
| "step s Undo = undo s"

definition run :: "State \<Rightarrow> Event list \<Rightarrow> State" where
  "run s evs = foldl step s evs"

text \<open>
  One pointer gesture: a pointer-down, the pointer-moves (each with the props of its
  moment) and the pointer-up.
\<close>

definition gesture :: "Props \<Rightarrow> Point \<Rightarrow> (Props \<times> Point) list \<Rightarrow> Props \<Rightarrow> Event list" where
  "gesture pr0 p0 moves prU =
     PointerDown pr0 p0 # map (\<lambda>m. PointerMove (fst m) (snd m)) moves @ [PointerUp prU]"

text \<open>
  The events of a pan gesture (a pointer event while the tool mode is \<open>PAN\<close>) and the
  events that move the viewport (those, and the wheel).
\<close>

fun pan_event :: "Event \<Rightarrow> bool" where
  "pan_event (PointerDown pr pos) = (mode pr = PAN)"
| "pan_event (PointerMove pr pos) = (mode pr = PAN)"
| "pan_event (PointerUp pr) = (mode pr = PAN)"
| "pan_event e = False"

fun viewport_event :: "Event \<Rightarrow> bool" where
  "viewport_event (Wheel mouse deltaY) = True"
| "viewport_event e = pan_event e"

text \<open>
  An image that fired \<open>onload\<close> has positive dimensions; the container it is fitted
  into is assumed to be laid out, with positive client size.
\<close>

fun sized_event :: "Event \<Rightarrow> bool" where
  "sized_event (ImageLoaded cont img) =
     (0 < width img \<and> 0 < height img \<and>
      (case cont of None \<Rightarrow> True | Some c \<Rightarrow> 0 < clientWidth c \<and> 0 < clientHeight c))"
| "sized_event e = True"


text \<open>
  The brush size in the props is positive whenever a pointer-up is handled (the parent
  takes it from a slider that ranges over 5 to 100).
\<close>

fun brush_event :: "Event \<Rightarrow> bool" where
  "brush_event (PointerUp pr) = (0 < brushSize pr)"
| "brush_event e = True"

text \<open>
  The repetition that the property "undo repeated until the list is empty" speaks of:
  it calls \<open>undo\<close> as long as a stroke is left. It is not code of the component.
\<close>

function undo_until_empty :: "State \<Rightarrow> State" where
  "undo_until_empty s = (if paths s = [] then s else undo_until_empty (undo s))"
  by pat_completeness auto
termination
  by (relation "measure (\<lambda>s. length (paths s))") (auto simp: undo_def slice_def neq_Nil_conv)

declare undo_until_empty.simps [simp del]

section \<open>Properties\<close>

subsection \<open>Undo\<close>

lemma slice_butlast: "slice xs 0 (- 1) = butlast xs"
  by (cases "xs = []") (simp_all add: slice_def Let_def butlast_conv_take nat_diff_distrib')

lemma paths_undo: "paths (undo s) = butlast (paths s)"
  by (simp add: undo_def slice_butlast)

lemma undo_funpow_paths: "paths ((undo ^^ n) s) = take (length (paths s) - n) (paths s)"
proof (induction n)
  case 0
  show ?case by simp
next
  case (Suc n)
  have "paths ((undo ^^ Suc n) s) = butlast (paths ((undo ^^ n) s))"
    by (simp add: paths_undo)
  also have "\<dots> = butlast (take (length (paths s) - n) (paths s))"
    by (simp only: Suc.IH)
  also have "\<dots> = take (length (paths s) - Suc n) (paths s)"
    by (simp add: butlast_take)
  finally show ?case .
qed

lemma undo_until_empty_funpow: "undo_until_empty s = (undo ^^ length (paths s)) s"
proof (induction s rule: undo_until_empty.induct)
  case (1 s)
  show ?case
  proof (cases "paths s = []")
    case True
    then show ?thesis by (simp add: undo_until_empty.simps [of s])
  next
    case False
    then have len: "length (paths s) = Suc (length (paths (undo s)))"
      by (simp add: paths_undo)
    have "undo_until_empty s = undo_until_empty (undo s)"
      using False by (simp add: undo_until_empty.simps [of s])
    also have "\<dots> = (undo ^^ length (paths (undo s))) (undo s)"
      using "1.IH" [OF False] .
    also have "\<dots> = (undo ^^ length (paths s)) s"
      by (simp only: len funpow_Suc_right o_apply)
    finally show ?thesis .
  qed
qed

text \<open>
  C9. \<open>undo\<close> removes exactly the last committed stroke when there is one and changes
  nothing when there is none; it is a total function (no error result), it touches no
  field but \<open>paths\<close>, in particular not the candidate stroke \<open>currentPath\<close>; \<open>n\<close> undos
  shorten the list by \<open>n\<close>, so undoing until the list is empty stops after as many
  calls as there are strokes, with the empty list.
\<close>

theorem undo_semantics:
  "undo s = s\<lparr>paths := butlast (paths s)\<rparr>
   \<and> (paths s \<noteq> [] \<longrightarrow> paths s = paths (undo s) @ [last (paths s)])
   \<and> (paths s = [] \<longrightarrow> undo s = s)
   \<and> currentPath (undo s) = currentPath s
   \<and> (\<forall>n. length (paths ((undo ^^ n) s)) = length (paths s) - n)
   \<and> undo_until_empty s = (undo ^^ length (paths s)) s
   \<and> paths (undo_until_empty s) = []"
proof -
  have a: "paths (undo s) = butlast (paths s)" by (rule paths_undo)
  have b: "paths s \<noteq> [] \<longrightarrow> paths s = paths (undo s) @ [last (paths s)]"
    by (simp add: a)
  have c: "paths s = [] \<longrightarrow> undo s = s" by (simp add: undo_def slice_butlast)
  have d: "currentPath (undo s) = currentPath s" by (simp add: undo_def)
  have e: "undo s = s\<lparr>paths := butlast (paths s)\<rparr>" by (simp add: undo_def slice_butlast)
  have f: "\<forall>n. length (paths ((undo ^^ n) s)) = length (paths s) - n"
    by (simp add: undo_funpow_paths)
  have g: "undo_until_empty s = (undo ^^ length (paths s)) s"
    by (rule undo_until_empty_funpow)
  have h: "paths (undo_until_empty s) = []"
    by (simp only: g undo_funpow_paths) simp
  from b c d e f g h show ?thesis by blast
qed

theorem undo_semantics_witness:
  "paths (init_state\<lparr>paths := [\<lparr>points = [\<lparr>x = 1, y = 2\<rparr>], size_path = 40\<rparr>,
                                \<lparr>points = [\<lparr>x = 3, y = 4\<rparr>], size_path = 5\<rparr>]\<rparr>) \<noteq> []
   \<and> paths (undo (init_state\<lparr>paths := [\<lparr>points = [\<lparr>x = 1, y = 2\<rparr>], size_path = 40\<rparr>,
                                      \<lparr>points = [\<lparr>x = 3, y = 4\<rparr>], size_path = 5\<rparr>]\<rparr>))
       = [\<lparr>points = [\<lparr>x = 1, y = 2\<rparr>], size_path = 40\<rparr>]
   \<and> paths (undo_until_empty
         (init_state\<lparr>paths := [\<lparr>points = [\<lparr>x = 1, y = 2\<rparr>], size_path = 40\<rparr>,
                                \<lparr>points = [\<lparr>x = 3, y = 4\<rparr>], size_path = 5\<rparr>]\<rparr>)) = []"
proof -
  let ?S = "init_state\<lparr>paths := [\<lparr>points = [\<lparr>x = 1, y = 2\<rparr>], size_path = 40\<rparr>,
                                  \<lparr>points = [\<lparr>x = 3, y = 4\<rparr>], size_path = 5\<rparr>]\<rparr>"
  note t = undo_semantics [of ?S]
  have ne: "paths ?S \<noteq> []" by simp
  from t have e: "undo ?S = ?S\<lparr>paths := butlast (paths ?S)\<rparr>" by (rule conjunct1)
  from t have h: "paths (undo_until_empty ?S) = []" by blast
  have u: "paths (undo ?S) = [\<lparr>points = [\<lparr>x = 1, y = 2\<rparr>], size_path = 40\<rparr>]"
    by (simp only: e) simp
  from ne u h show ?thesis by blast
qed

subsection \<open>Zoom\<close>

text \<open>
  C2. Cursor-anchored zoom: from a state with positive scale, the image-space point
  under the cursor is the same before and after \<open>handleWheel\<close>, for every wheel delta
  (whether or not the new scale had to be clamped). Arithmetic is exact here, so the
  two points are equal, not only close.
\<close>

theorem zoom_anchor_invariant:
  assumes "0 < scale s"
  shows "getCanvasCoords (handleWheel s mouse deltaY) mouse = getCanvasCoords s mouse"
proof (cases "imgObj s")
  case None
  then show ?thesis by (simp add: handleWheel_def)
next
  case (Some img)
  define n where "n = min (max 0.1 (scale s + - deltaY * 0.001)) 10"
  have npos: "0 < n" unfolding n_def by simp
  have e: "(a - (a - (a - b) * (n / scale s))) / n = (a - b) / scale s" for a b :: real
    using npos assms by (simp add: field_simps)
  show ?thesis
    using Some e unfolding handleWheel_def getCanvasCoords_def Let_def n_def by simp
qed

theorem zoom_anchor_invariant_witness:
  "0 < scale (init_state\<lparr>imgObj := Some \<lparr>width = 100, height = 100\<rparr>\<rparr>)
   \<and> getCanvasCoords
        (handleWheel (init_state\<lparr>imgObj := Some \<lparr>width = 100, height = 100\<rparr>\<rparr>)
           \<lparr>x = 30, y = 40\<rparr> (- 500)) \<lparr>x = 30, y = 40\<rparr> = \<lparr>x = 30, y = 40\<rparr>
   \<and> scale (handleWheel (init_state\<lparr>imgObj := Some \<lparr>width = 100, height = 100\<rparr>\<rparr>)
           \<lparr>x = 30, y = 40\<rparr> (- 500)) = 1.5"
  using zoom_anchor_invariant
          [of "init_state\<lparr>imgObj := Some \<lparr>width = 100, height = 100\<rparr>\<rparr>" "\<lparr>x = 30, y = 40\<rparr>" "- 500"]
  by (simp add: init_state_def getCanvasCoords_def handleWheel_def Let_def)

subsection \<open>Runs and gestures\<close>


lemma run_Nil: "run s [] = s"
  by (simp add: run_def)

lemma run_Cons: "run s (e # evs) = run (step s e) evs"
  by (simp add: run_def)

lemma run_append: "run s (evs @ evs') = run (run s evs) evs'"
  by (simp add: run_def)

lemma getCanvasCoords_cong:
  "scale a = scale b \<Longrightarrow> offset a = offset b \<Longrightarrow> getCanvasCoords a p = getCanvasCoords b p"
  by (simp add: getCanvasCoords_def)

text \<open>Pointer-moves while drawing append one image-space point each.\<close>

lemma draw_moves:
  assumes "isDragging s" "imgObj s \<noteq> None" "\<forall>m \<in> set moves. mode (fst m) = DRAW"
  shows "run s (map (\<lambda>m. PointerMove (fst m) (snd m)) moves) =
           s\<lparr>currentPath := currentPath s @ map (getCanvasCoords s) (map snd moves),
             lastPos := last (lastPos s # map snd moves)\<rparr>"
  using assms
proof (induction moves arbitrary: s)
  case Nil
  show ?case by (simp add: run_Nil)
next
  case (Cons m moves)
  let ?t = "handlePointerMove (fst m) s (snd m)"
  have md: "mode (fst m) = DRAW" using Cons.prems(3) by simp
  have t: "?t = s\<lparr>currentPath := currentPath s @ [getCanvasCoords s (snd m)], lastPos := snd m\<rparr>"
    using Cons.prems(1,2) md by (auto simp: handlePointerMove_def)
  have c: "getCanvasCoords ?t = getCanvasCoords s"
    by (rule ext, rule getCanvasCoords_cong) (simp_all add: t)
  have "run ?t (map (\<lambda>m. PointerMove (fst m) (snd m)) moves) =
          ?t\<lparr>currentPath := currentPath ?t @ map (getCanvasCoords ?t) (map snd moves),
             lastPos := last (lastPos ?t # map snd moves)\<rparr>"
    using Cons.prems by (intro Cons.IH) (simp_all add: t)
  then show ?case
    by (simp add: run_Cons c) (simp add: t)
qed

text \<open>Pointer-moves while panning add the pointer's displacement to the offset.\<close>

lemma pan_moves:
  assumes "isDragging s" "imgObj s \<noteq> None" "\<forall>m \<in> set moves. mode (fst m) = PAN"
  shows "run s (map (\<lambda>m. PointerMove (fst m) (snd m)) moves) =
           s\<lparr>offset := \<lparr>x = x (offset s) + (x (last (lastPos s # map snd moves)) - x (lastPos s)),
                        y = y (offset s) + (y (last (lastPos s # map snd moves)) - y (lastPos s))\<rparr>,
             lastPos := last (lastPos s # map snd moves)\<rparr>"
  using assms
proof (induction moves arbitrary: s)
  case Nil
  show ?case by (simp add: run_Nil)
next
  case (Cons m moves)
  let ?t = "handlePointerMove (fst m) s (snd m)"
  have md: "mode (fst m) = PAN" using Cons.prems(3) by simp
  have t: "?t = s\<lparr>offset := \<lparr>x = x (offset s) + (x (snd m) - x (lastPos s)),
                            y = y (offset s) + (y (snd m) - y (lastPos s))\<rparr>,
                 lastPos := snd m\<rparr>"
    using Cons.prems(1,2) md by (auto simp: handlePointerMove_def Let_def)
  have "run ?t (map (\<lambda>m. PointerMove (fst m) (snd m)) moves) =
          ?t\<lparr>offset := \<lparr>x = x (offset ?t) + (x (last (lastPos ?t # map snd moves)) - x (lastPos ?t)),
                        y = y (offset ?t) + (y (last (lastPos ?t # map snd moves)) - y (lastPos ?t))\<rparr>,
             lastPos := last (lastPos ?t # map snd moves)\<rparr>"
    using Cons.prems by (intro Cons.IH) (simp_all add: t)
  then show ?case
    by (simp add: run_Cons) (simp add: t)
qed

lemma run_gesture:
  "run s (gesture pr0 p0 moves prU) =
     handlePointerUp prU
       (run (handlePointerDown pr0 s p0) (map (\<lambda>m. PointerMove (fst m) (snd m)) moves))"
  by (simp add: gesture_def run_Cons run_append run_Nil)

lemma draw_gesture:
  assumes "imgObj s \<noteq> None" "mode pr0 = DRAW" "\<forall>m \<in> set moves. mode (fst m) = DRAW"
    "mode prU = DRAW"
  shows "run s (gesture pr0 p0 moves prU) =
           s\<lparr>isDragging := False, lastPos := last (p0 # map snd moves), currentPath := [],
             paths := paths s @ [\<lparr>points = map (getCanvasCoords s) (p0 # map snd moves),
                                  size_path = brushSize prU\<rparr>]\<rparr>"
proof -
  let ?d = "handlePointerDown pr0 s p0"
  have d: "?d = s\<lparr>isDragging := True, lastPos := p0, currentPath := [getCanvasCoords s p0]\<rparr>"
    using assms(1,2) by (auto simp: handlePointerDown_def)
  have c: "getCanvasCoords ?d = getCanvasCoords s"
    by (rule ext, rule getCanvasCoords_cong) (simp_all add: d)
  have m: "run ?d (map (\<lambda>m. PointerMove (fst m) (snd m)) moves) =
             ?d\<lparr>currentPath := currentPath ?d @ map (getCanvasCoords ?d) (map snd moves),
                lastPos := last (lastPos ?d # map snd moves)\<rparr>"
    using assms by (intro draw_moves) (simp_all add: d)
  show ?thesis
    unfolding run_gesture m c
    using assms(4) by (simp add: d handlePointerUp_def)
qed


lemma idle_moves:
  assumes "imgObj s = None"
  shows "run s (map (\<lambda>m. PointerMove (fst m) (snd m)) moves) = s"
  using assms
  by (induction moves arbitrary: s) (simp_all add: run_Nil run_Cons handlePointerMove_def)

lemma pan_gesture:
  assumes "imgObj s \<noteq> None" "mode pr0 = PAN" "\<forall>m \<in> set moves. mode (fst m) = PAN"
    "mode prU = PAN"
  shows "run s (gesture pr0 p0 moves prU) =
           s\<lparr>offset := \<lparr>x = x (offset s) + (x (last (p0 # map snd moves)) - x p0),
                        y = y (offset s) + (y (last (p0 # map snd moves)) - y p0)\<rparr>,
             lastPos := last (p0 # map snd moves), isDragging := False, currentPath := []\<rparr>"
proof -
  let ?d = "handlePointerDown pr0 s p0"
  have d: "?d = s\<lparr>isDragging := True, lastPos := p0\<rparr>"
    using assms(1,2) by (auto simp: handlePointerDown_def)
  have m: "run ?d (map (\<lambda>m. PointerMove (fst m) (snd m)) moves) =
             ?d\<lparr>offset := \<lparr>x = x (offset ?d) + (x (last (lastPos ?d # map snd moves)) - x (lastPos ?d)),
                           y = y (offset ?d) + (y (last (lastPos ?d # map snd moves)) - y (lastPos ?d))\<rparr>,
                lastPos := last (lastPos ?d # map snd moves)\<rparr>"
    using assms by (intro pan_moves) (simp_all add: d)
  show ?thesis
    unfolding run_gesture m
    using assms(4) by (simp add: d handlePointerUp_def)
qed

lemma idle_gesture:
  assumes "imgObj s = None"
  shows "run s (gesture pr0 p0 moves prU) = handlePointerUp prU s"
proof -
  have d: "handlePointerDown pr0 s p0 = s"
    using assms by (simp add: handlePointerDown_def)
  show ?thesis
    unfolding run_gesture d by (simp add: idle_moves [OF assms])
qed

lemma pan_step_frame:
  assumes "pan_event e"
  shows "paths (step s e) = paths s \<and> scale (step s e) = scale s \<and> imgObj (step s e) = imgObj s
         \<and> (currentPath s = [] \<longrightarrow> currentPath (step s e) = [])"
  using assms
  by (cases e)
     (auto simp: handlePointerDown_def handlePointerMove_def handlePointerUp_def Let_def)

lemma pan_run_frame:
  assumes "list_all pan_event evs"
  shows "paths (run s evs) = paths s \<and> scale (run s evs) = scale s \<and> imgObj (run s evs) = imgObj s
         \<and> (currentPath s = [] \<longrightarrow> currentPath (run s evs) = [])"
  using assms
proof (induction evs arbitrary: s)
  case Nil
  show ?case by (simp add: run_Nil)
next
  case (Cons e evs)
  from Cons.prems have e: "pan_event e" and r: "list_all pan_event evs" by simp_all
  show ?case
    using pan_step_frame [OF e, of s] Cons.IH [OF r, of "step s e"]
    by (simp add: run_Cons)
qed

lemma pan_events_gesture:
  assumes "mode pr0 = PAN" "\<forall>m \<in> set moves. mode (fst m) = PAN" "mode prU = PAN"
  shows "list_all pan_event (gesture pr0 p0 moves prU)"
  using assms by (simp add: gesture_def list_all_iff)

lemma list_all_take: "list_all P xs \<Longrightarrow> list_all P (take k xs)"
  by (auto simp: list_all_iff dest: in_set_takeD)

text \<open>
  C10. A pointer gesture made entirely in pan mode (pointer-down, any pointer-moves,
  pointer-up, the tool mode \<open>PAN\<close> at each of them), begun with no candidate stroke:
  after every prefix of the gesture the committed strokes and the scale are as before
  and the candidate is still empty. With an image loaded the final state differs from
  the initial one only in the offset, which grew by the pointer's displacement from the
  pointer-down to the last move, and in \<open>lastPos\<close> and \<open>isDragging\<close>; with no image the
  handlers do nothing. Each single move of a drag adds the pointer delta since the last
  position to the offset.
\<close>

theorem pan_gesture_frame:
  assumes "mode pr0 = PAN" "\<forall>m \<in> set moves. mode (fst m) = PAN" "mode prU = PAN"
    "currentPath s = []"
  shows "(\<forall>k. paths (run s (take k (gesture pr0 p0 moves prU))) = paths s
             \<and> currentPath (run s (take k (gesture pr0 p0 moves prU))) = []
             \<and> scale (run s (take k (gesture pr0 p0 moves prU))) = scale s)
         \<and> (imgObj s \<noteq> None \<longrightarrow>
              run s (gesture pr0 p0 moves prU) =
                s\<lparr>offset := \<lparr>x = x (offset s) + (x (last (p0 # map snd moves)) - x p0),
                             y = y (offset s) + (y (last (p0 # map snd moves)) - y p0)\<rparr>,
                  lastPos := last (p0 # map snd moves), isDragging := False\<rparr>)
         \<and> (imgObj s = None \<longrightarrow> run s (gesture pr0 p0 moves prU) = s\<lparr>isDragging := False\<rparr>)
         \<and> (\<forall>t pr p. mode pr = PAN \<and> isDragging t \<and> imgObj t \<noteq> None \<longrightarrow>
               offset (handlePointerMove pr t p) =
                 \<lparr>x = x (offset t) + (x p - x (lastPos t)),
                  y = y (offset t) + (y p - y (lastPos t))\<rparr>)"
proof -
  have ev: "list_all pan_event (gesture pr0 p0 moves prU)"
    using assms(1-3) by (rule pan_events_gesture)
  have a: "\<forall>k. paths (run s (take k (gesture pr0 p0 moves prU))) = paths s
             \<and> currentPath (run s (take k (gesture pr0 p0 moves prU))) = []
             \<and> scale (run s (take k (gesture pr0 p0 moves prU))) = scale s"
    using pan_run_frame [where s = s, OF list_all_take [OF ev]] assms(4) by blast
  have nop: "s\<lparr>currentPath := []\<rparr> = s" using assms(4) by simp
  have b: "imgObj s \<noteq> None \<longrightarrow>
              run s (gesture pr0 p0 moves prU) =
                s\<lparr>offset := \<lparr>x = x (offset s) + (x (last (p0 # map snd moves)) - x p0),
                             y = y (offset s) + (y (last (p0 # map snd moves)) - y p0)\<rparr>,
                  lastPos := last (p0 # map snd moves), isDragging := False\<rparr>"
  proof
    assume i: "imgObj s \<noteq> None"
    show "run s (gesture pr0 p0 moves prU) =
                s\<lparr>offset := \<lparr>x = x (offset s) + (x (last (p0 # map snd moves)) - x p0),
                             y = y (offset s) + (y (last (p0 # map snd moves)) - y p0)\<rparr>,
                  lastPos := last (p0 # map snd moves), isDragging := False\<rparr>"
      unfolding pan_gesture [OF i assms(1-3)] using assms(4) by simp
  qed
  have c: "imgObj s = None \<longrightarrow> run s (gesture pr0 p0 moves prU) = s\<lparr>isDragging := False\<rparr>"
    using assms(3,4) by (simp add: idle_gesture handlePointerUp_def)
  have d: "\<forall>t pr p. mode pr = PAN \<and> isDragging t \<and> imgObj t \<noteq> None \<longrightarrow>
               offset (handlePointerMove pr t p) =
                 \<lparr>x = x (offset t) + (x p - x (lastPos t)),
                  y = y (offset t) + (y p - y (lastPos t))\<rparr>"
    by (auto simp: handlePointerMove_def Let_def)
  from a b c d show ?thesis by blast
qed






text \<open>
  C5, as amended. The stroke that a draw gesture commits carries the brush size that is
  in the props at the pointer-up (\<open>handlePointerUp\<close> reads \<open>brushSize\<close> then; the
  pointer-down records no size). It is the size of the gesture's start when the
  setting did not change in between.
\<close>

theorem stroke_diameter_at_commit:
  assumes "imgObj s \<noteq> None" "mode pr0 = DRAW" "\<forall>m \<in> set moves. mode (fst m) = DRAW"
    "mode prU = DRAW"
  shows "paths (run s (gesture pr0 p0 moves prU)) =
           paths s @ [\<lparr>points = map (getCanvasCoords s) (p0 # map snd moves),
                       size_path = brushSize prU\<rparr>]
         \<and> (brushSize prU = brushSize pr0 \<longrightarrow>
              size_path (last (paths (run s (gesture pr0 p0 moves prU)))) = brushSize pr0)"
  by (simp add: draw_gesture [OF assms])


theorem pan_gesture_frame_witness:
  "mode \<lparr>mode = PAN, brushSize = 40\<rparr> = PAN
   \<and> currentPath (init_state\<lparr>imgObj := Some \<lparr>width = 100, height = 100\<rparr>\<rparr>) = []
   \<and> run (init_state\<lparr>imgObj := Some \<lparr>width = 100, height = 100\<rparr>\<rparr>)
         (gesture \<lparr>mode = PAN, brushSize = 40\<rparr> \<lparr>x = 10, y = 10\<rparr>
            [(\<lparr>mode = PAN, brushSize = 40\<rparr>, \<lparr>x = 15, y = 12\<rparr>),
             (\<lparr>mode = PAN, brushSize = 40\<rparr>, \<lparr>x = 20, y = 30\<rparr>)]
            \<lparr>mode = PAN, brushSize = 40\<rparr>)
       = init_state\<lparr>imgObj := Some \<lparr>width = 100, height = 100\<rparr>,
                    offset := \<lparr>x = 10, y = 20\<rparr>, lastPos := \<lparr>x = 20, y = 30\<rparr>\<rparr>"
proof -
  let ?S = "init_state\<lparr>imgObj := Some \<lparr>width = 100, height = 100\<rparr>\<rparr>"
  let ?pr = "\<lparr>mode = PAN, brushSize = 40\<rparr>"
  let ?moves = "[(?pr, \<lparr>x = 15, y = 12\<rparr>), (?pr, \<lparr>x = 20, y = 30\<rparr>)]"
  have h1: "mode ?pr = PAN" by simp
  have h2: "\<forall>m \<in> set ?moves. mode (fst m) = PAN" by simp
  have h4: "currentPath ?S = []" by (simp add: init_state_def)
  have i: "imgObj ?S \<noteq> None" by simp
  note t = pan_gesture_frame [OF h1 h2 h1 h4, of "\<lparr>x = 10, y = 10\<rparr>"]
  from t i have r: "run ?S (gesture ?pr \<lparr>x = 10, y = 10\<rparr> ?moves ?pr) =
      ?S\<lparr>offset := \<lparr>x = x (offset ?S) + (x (last (\<lparr>x = 10, y = 10\<rparr> # map snd ?moves)) - x \<lparr>x = 10, y = 10\<rparr>),
                    y = y (offset ?S) + (y (last (\<lparr>x = 10, y = 10\<rparr> # map snd ?moves)) - y \<lparr>x = 10, y = 10\<rparr>)\<rparr>,
         lastPos := last (\<lparr>x = 10, y = 10\<rparr> # map snd ?moves), isDragging := False\<rparr>"
    by blast
  show ?thesis
    unfolding r by (simp add: init_state_def)
qed


theorem stroke_diameter_at_commit_witness:
  "imgObj (init_state\<lparr>imgObj := Some \<lparr>width = 100, height = 100\<rparr>\<rparr>) \<noteq> None
   \<and> paths (run (init_state\<lparr>imgObj := Some \<lparr>width = 100, height = 100\<rparr>\<rparr>)
                 (gesture \<lparr>mode = DRAW, brushSize = 40\<rparr> \<lparr>x = 10, y = 10\<rparr>
                    [(\<lparr>mode = DRAW, brushSize = 25\<rparr>, \<lparr>x = 20, y = 30\<rparr>)]
                    \<lparr>mode = DRAW, brushSize = 10\<rparr>))
       = [\<lparr>points = [\<lparr>x = 10, y = 10\<rparr>, \<lparr>x = 20, y = 30\<rparr>], size_path = 10\<rparr>]"
proof -
  let ?S = "init_state\<lparr>imgObj := Some \<lparr>width = 100, height = 100\<rparr>\<rparr>"
  let ?moves = "[(\<lparr>mode = DRAW, brushSize = 25\<rparr>, \<lparr>x = 20, y = 30\<rparr>)]"
  have h0: "mode \<lparr>mode = DRAW, brushSize = 40\<rparr> = DRAW" by simp
  have h2: "\<forall>m \<in> set ?moves. mode (fst m) = DRAW" by simp
  have h3: "mode \<lparr>mode = DRAW, brushSize = 10\<rparr> = DRAW" by simp
  have i: "imgObj ?S \<noteq> None" by simp
  note t = stroke_diameter_at_commit [OF i h0 h2 h3, of "\<lparr>x = 10, y = 10\<rparr>"]
  from t have r: "paths (run ?S (gesture \<lparr>mode = DRAW, brushSize = 40\<rparr> \<lparr>x = 10, y = 10\<rparr> ?moves
                     \<lparr>mode = DRAW, brushSize = 10\<rparr>)) =
           paths ?S @ [\<lparr>points = map (getCanvasCoords ?S) (\<lparr>x = 10, y = 10\<rparr> # map snd ?moves),
                       size_path = brushSize \<lparr>mode = DRAW, brushSize = 10\<rparr>\<rparr>]"
    by (rule conjunct1)
  show ?thesis
    unfolding r by (simp add: init_state_def getCanvasCoords_def)
qed

text \<open>
  C5 as stated fails: a drag begun with brush size 40 and finished after the setting
  changed to 10 commits a stroke of size 10.
\<close>

theorem stroke_diameter_at_start_counterexample:
  "paths (run (init_state\<lparr>imgObj := Some \<lparr>width = 100, height = 100\<rparr>\<rparr>)
                 (gesture \<lparr>mode = DRAW, brushSize = 40\<rparr> \<lparr>x = 10, y = 10\<rparr>
                    [(\<lparr>mode = DRAW, brushSize = 40\<rparr>, \<lparr>x = 20, y = 30\<rparr>)]
                    \<lparr>mode = DRAW, brushSize = 10\<rparr>))
     = [\<lparr>points = [\<lparr>x = 10, y = 10\<rparr>, \<lparr>x = 20, y = 30\<rparr>], size_path = 10\<rparr>]
   \<and> brushSize \<lparr>mode = DRAW, brushSize = 40\<rparr> \<noteq> 10"
  by (simp add: run_def gesture_def init_state_def handlePointerDown_def handlePointerMove_def
        handlePointerUp_def getCanvasCoords_def)


subsection \<open>Image load\<close>

lemma scale_imageOnload:
  assumes "0 < width img" "0 < height img" "0 < clientWidth c" "0 < clientHeight c"
  shows "0 < scale (imageOnload (Some c) img s) \<and> scale (imageOnload (Some c) img s) \<le> 0.9"
  using assms by (simp add: imageOnload_def Let_def min_def)

text \<open>
  C3. When an image of positive width and height has loaded and the container is
  there, the scale is the least of \<open>clientWidth / width\<close>, \<open>clientHeight / height\<close> and 1,
  times 0.9, and the offset centres the scaled image: \<open>offset.x\<close> is
  \<open>(clientWidth - width * scale) / 2\<close>, \<open>offset.y\<close> likewise, so the middle of the scaled
  image lies on the middle of the container.
\<close>

theorem fit_to_container:
  assumes "0 < width img" "0 < height img"
  shows "scale (imageOnload (Some c) img s) =
           min (clientWidth c / width img) (min (clientHeight c / height img) 1) * 0.9
         \<and> x (offset (imageOnload (Some c) img s)) =
             (clientWidth c - width img * scale (imageOnload (Some c) img s)) / 2
         \<and> y (offset (imageOnload (Some c) img s)) =
             (clientHeight c - height img * scale (imageOnload (Some c) img s)) / 2
         \<and> x (offset (imageOnload (Some c) img s)) + width img * scale (imageOnload (Some c) img s) / 2
             = clientWidth c / 2
         \<and> y (offset (imageOnload (Some c) img s)) + height img * scale (imageOnload (Some c) img s) / 2
             = clientHeight c / 2"
  by (simp add: imageOnload_def Let_def min.assoc field_simps)

theorem fit_to_container_witness:
  "0 < width \<lparr>width = 2000, height = 1000\<rparr> \<and> 0 < height \<lparr>width = 2000, height = 1000\<rparr>
   \<and> scale (imageOnload (Some \<lparr>clientWidth = 800, clientHeight = 600\<rparr>)
              \<lparr>width = 2000, height = 1000\<rparr> init_state) = 0.36
   \<and> offset (imageOnload (Some \<lparr>clientWidth = 800, clientHeight = 600\<rparr>)
              \<lparr>width = 2000, height = 1000\<rparr> init_state) = \<lparr>x = 40, y = 120\<rparr>"
proof -
  let ?img = "\<lparr>width = 2000, height = 1000\<rparr>"
  let ?c = "\<lparr>clientWidth = 800, clientHeight = 600\<rparr>"
  have w: "0 < width ?img" and h: "0 < height ?img" by simp_all
  note t = fit_to_container [OF w h, of ?c init_state]
  from t have sc: "scale (imageOnload (Some ?c) ?img init_state) = 0.36" by simp
  from t have ox: "x (offset (imageOnload (Some ?c) ?img init_state)) = 40"
    unfolding sc by simp
  from t have oy: "y (offset (imageOnload (Some ?c) ?img init_state)) = 120"
    unfolding sc by simp
  have "offset (imageOnload (Some ?c) ?img init_state) = \<lparr>x = 40, y = 120\<rparr>"
    using ox oy by (cases "offset (imageOnload (Some ?c) ?img init_state)") simp
  with w h sc show ?thesis by blast
qed

text \<open>
  C8. Whatever the state before, an image load leaves the committed stroke list empty
  and sets \<open>imgObj\<close>; with the container there (\<open>containerRef\<close> is attached to the
  component's own element for as long as it is mounted) the scale and the offset become
  the fit-and-centre values, which depend on the image and the container only, not on
  the state before.
\<close>

theorem image_load_resets:
  "paths (imageOnload cont img s) = []
   \<and> imgObj (imageOnload cont img s) = Some img
   \<and> scale (imageOnload (Some c) img s) =
       min (min (clientWidth c / width img) (clientHeight c / height img)) 1 * 0.9
   \<and> offset (imageOnload (Some c) img s) =
       \<lparr>x = (clientWidth c - width img * (min (min (clientWidth c / width img) (clientHeight c / height img)) 1 * 0.9)) / 2,
        y = (clientHeight c - height img * (min (min (clientWidth c / width img) (clientHeight c / height img)) 1 * 0.9)) / 2\<rparr>
   \<and> (\<forall>s'. scale (imageOnload (Some c) img s) = scale (imageOnload (Some c) img s')
           \<and> offset (imageOnload (Some c) img s) = offset (imageOnload (Some c) img s'))"
  by (cases cont) (simp_all add: imageOnload_def Let_def)


theorem image_load_resets_witness:
  "paths (imageOnload (Some \<lparr>clientWidth = 800, clientHeight = 600\<rparr>) \<lparr>width = 2000, height = 1000\<rparr>
      (init_state\<lparr>scale := 3, offset := \<lparr>x = 7, y = 9\<rparr>,
                   paths := [\<lparr>points = [\<lparr>x = 1, y = 2\<rparr>], size_path = 40\<rparr>]\<rparr>)) = []
   \<and> scale (imageOnload (Some \<lparr>clientWidth = 800, clientHeight = 600\<rparr>) \<lparr>width = 2000, height = 1000\<rparr>
      (init_state\<lparr>scale := 3, offset := \<lparr>x = 7, y = 9\<rparr>,
                   paths := [\<lparr>points = [\<lparr>x = 1, y = 2\<rparr>], size_path = 40\<rparr>]\<rparr>)) = 0.36
   \<and> offset (imageOnload (Some \<lparr>clientWidth = 800, clientHeight = 600\<rparr>) \<lparr>width = 2000, height = 1000\<rparr>
      (init_state\<lparr>scale := 3, offset := \<lparr>x = 7, y = 9\<rparr>,
                   paths := [\<lparr>points = [\<lparr>x = 1, y = 2\<rparr>], size_path = 40\<rparr>]\<rparr>)) = \<lparr>x = 40, y = 120\<rparr>"
proof -
  let ?img = "\<lparr>width = 2000, height = 1000\<rparr>"
  let ?c = "\<lparr>clientWidth = 800, clientHeight = 600\<rparr>"
  let ?S = "init_state\<lparr>scale := 3, offset := \<lparr>x = 7, y = 9\<rparr>,
                   paths := [\<lparr>points = [\<lparr>x = 1, y = 2\<rparr>], size_path = 40\<rparr>]\<rparr>"
  note t = image_load_resets [of "Some ?c" ?img ?S ?c]
  from t have a: "paths (imageOnload (Some ?c) ?img ?S) = []" by (rule conjunct1)
  from t have b: "scale (imageOnload (Some ?c) ?img ?S) = 0.36" by simp
  from t have c: "offset (imageOnload (Some ?c) ?img ?S) = \<lparr>x = 40, y = 120\<rparr>" by simp
  from a b c show ?thesis by blast
qed

subsection \<open>Scale bounds\<close>

lemma scale_step:
  assumes "sized_event e" "0 < scale s" "scale s \<le> 10"
  shows "0 < scale (step s e) \<and> scale (step s e) \<le> 10"
proof (cases e)
  case (ImageLoaded cont img)
  show ?thesis
  proof (cases cont)
    case None
    then show ?thesis using ImageLoaded assms by (simp add: imageOnload_def)
  next
    case (Some c)
    have "0 < width img" "0 < height img" "0 < clientWidth c" "0 < clientHeight c"
      using assms(1) ImageLoaded Some by simp_all
    from scale_imageOnload [OF this, of s] show ?thesis
      using ImageLoaded Some by simp
  qed
next
  case (Wheel mouse deltaY)
  then show ?thesis using assms by (simp add: handleWheel_def Let_def min_def max_def)
qed (use assms in \<open>simp_all add: imageCleared_def handlePointerDown_def handlePointerMove_def
      handlePointerUp_def resetMask_def undo_def Let_def\<close>)

lemma scale_run:
  assumes "list_all sized_event evs" "0 < scale s" "scale s \<le> 10"
  shows "0 < scale (run s evs) \<and> scale (run s evs) \<le> 10"
  using assms
proof (induction evs arbitrary: s)
  case Nil
  then show ?case by (simp add: run_Nil)
next
  case (Cons e evs)
  from Cons.prems have e: "sized_event e" and r: "list_all sized_event evs" by simp_all
  from scale_step [OF e Cons.prems(2,3)]
  have "0 < scale (step s e)" "scale (step s e) \<le> 10" by simp_all
  from Cons.IH [OF r this] show ?case by (simp add: run_Cons)
qed

text \<open>
  C6, as amended. In every state reached from the initial one by events whose image
  loads have positive image and container sizes, the scale is positive and at most 10.
  A wheel event on a loaded image leaves the scale within 0.1 and 10: a request below
  0.1 gives 0.1, one above 10 gives 10, any other is taken as it is. An image load sets
  the fit scale, positive and at most 0.9; it is not raised to 0.1.
\<close>

theorem scale_bounds:
  assumes "list_all sized_event evs"
  shows "0 < scale (run init_state evs) \<and> scale (run init_state evs) \<le> 10
         \<and> (\<forall>s mouse deltaY. imgObj s \<noteq> None \<longrightarrow>
               0.1 \<le> scale (handleWheel s mouse deltaY) \<and> scale (handleWheel s mouse deltaY) \<le> 10
               \<and> (scale s - deltaY * 0.001 < 0.1 \<longrightarrow> scale (handleWheel s mouse deltaY) = 0.1)
               \<and> (10 < scale s - deltaY * 0.001 \<longrightarrow> scale (handleWheel s mouse deltaY) = 10)
               \<and> (0.1 \<le> scale s - deltaY * 0.001 \<and> scale s - deltaY * 0.001 \<le> 10 \<longrightarrow>
                    scale (handleWheel s mouse deltaY) = scale s - deltaY * 0.001))
         \<and> (\<forall>c img s. 0 < width img \<and> 0 < height img \<and> 0 < clientWidth c \<and> 0 < clientHeight c \<longrightarrow>
               0 < scale (imageOnload (Some c) img s) \<and> scale (imageOnload (Some c) img s) \<le> 0.9)"
proof -
  have a: "0 < scale (run init_state evs) \<and> scale (run init_state evs) \<le> 10"
    by (rule scale_run [OF assms]) (simp_all add: init_state_def)
  have b: "\<forall>s mouse deltaY. imgObj s \<noteq> None \<longrightarrow>
               0.1 \<le> scale (handleWheel s mouse deltaY) \<and> scale (handleWheel s mouse deltaY) \<le> 10
               \<and> (scale s - deltaY * 0.001 < 0.1 \<longrightarrow> scale (handleWheel s mouse deltaY) = 0.1)
               \<and> (10 < scale s - deltaY * 0.001 \<longrightarrow> scale (handleWheel s mouse deltaY) = 10)
               \<and> (0.1 \<le> scale s - deltaY * 0.001 \<and> scale s - deltaY * 0.001 \<le> 10 \<longrightarrow>
                    scale (handleWheel s mouse deltaY) = scale s - deltaY * 0.001)"
    by (auto simp: handleWheel_def Let_def min_def max_def)
  have c: "\<forall>c img s. 0 < width img \<and> 0 < height img \<and> 0 < clientWidth c \<and> 0 < clientHeight c \<longrightarrow>
               0 < scale (imageOnload (Some c) img s) \<and> scale (imageOnload (Some c) img s) \<le> 0.9"
  proof (intro allI impI)
    fix c :: Container and img :: Image and s :: State
    assume h: "0 < width img \<and> 0 < height img \<and> 0 < clientWidth c \<and> 0 < clientHeight c"
    then have "0 < width img" "0 < height img" "0 < clientWidth c" "0 < clientHeight c"
      by simp_all
    then show "0 < scale (imageOnload (Some c) img s) \<and> scale (imageOnload (Some c) img s) \<le> 0.9"
      by (rule scale_imageOnload)
  qed
  from a b c show ?thesis by blast
qed

text \<open>
  C6 as stated fails: a 12000 by 9000 image in an 800 by 600 container is fitted at scale
  0.06, below the least zoom scale 0.1.
\<close>

theorem scale_after_load_counterexample:
  "scale (run init_state
       [ImageLoaded (Some \<lparr>clientWidth = 800, clientHeight = 600\<rparr>) \<lparr>width = 12000, height = 9000\<rparr>])
     = 0.06
   \<and> \<not> (0.1 \<le> scale (run init_state
       [ImageLoaded (Some \<lparr>clientWidth = 800, clientHeight = 600\<rparr>) \<lparr>width = 12000, height = 9000\<rparr>]))"
  by (simp add: run_def imageOnload_def init_state_def Let_def)

theorem scale_bounds_witness:
  "list_all sized_event
     [ImageLoaded (Some \<lparr>clientWidth = 800, clientHeight = 600\<rparr>) \<lparr>width = 12000, height = 9000\<rparr>,
      Wheel \<lparr>x = 5, y = 5\<rparr> (- 20000)]
   \<and> scale (run init_state
       [ImageLoaded (Some \<lparr>clientWidth = 800, clientHeight = 600\<rparr>) \<lparr>width = 12000, height = 9000\<rparr>,
        Wheel \<lparr>x = 5, y = 5\<rparr> (- 20000)]) = 10
   \<and> 0 < scale (run init_state
       [ImageLoaded (Some \<lparr>clientWidth = 800, clientHeight = 600\<rparr>) \<lparr>width = 12000, height = 9000\<rparr>,
        Wheel \<lparr>x = 5, y = 5\<rparr> (- 20000)])"
proof -
  let ?evs = "[ImageLoaded (Some \<lparr>clientWidth = 800, clientHeight = 600\<rparr>) \<lparr>width = 12000, height = 9000\<rparr>,
      Wheel \<lparr>x = 5, y = 5\<rparr> (- 20000)]"
  have h: "list_all sized_event ?evs" by simp
  note t = scale_bounds [OF h]
  from t have p: "0 < scale (run init_state ?evs)" by (rule conjunct1)
  have v: "scale (run init_state ?evs) = 10"
    by (simp add: run_def imageOnload_def handleWheel_def init_state_def Let_def)
  from h v p show ?thesis by blast
qed


subsection \<open>The exported mask\<close>

lemma viewport_step_frame:
  assumes "viewport_event e"
  shows "paths (step s e) = paths s \<and> imgObj (step s e) = imgObj s"
proof (cases e)
  case (Wheel mouse deltaY)
  then show ?thesis by (simp add: handleWheel_def Let_def)
qed (use assms pan_step_frame [of e s] in simp_all)

lemma viewport_run_frame:
  assumes "list_all viewport_event evs"
  shows "paths (run s evs) = paths s \<and> imgObj (run s evs) = imgObj s"
  using assms
proof (induction evs arbitrary: s)
  case Nil
  show ?case by (simp add: run_Nil)
next
  case (Cons e evs)
  from Cons.prems have e: "viewport_event e" and r: "list_all viewport_event evs" by simp_all
  show ?case
    using viewport_step_frame [OF e, of s] Cons.IH [OF r, of "step s e"]
    by (simp add: run_Cons)
qed

lemma getMaskDataURL_cong:
  assumes "imgObj s1 = imgObj s2" "paths s1 = paths s2"
  shows "getMaskDataURL toDataURL hasContext s1 = getMaskDataURL toDataURL hasContext s2"
  by (simp only: getMaskDataURL_def assms)

text \<open>
  C1. The exported mask does not depend on the viewport: two states with the same
  image and the same committed strokes export the same value, so does a state after its
  scale and offset were overwritten, and so does a state after any sequence of pan
  events and wheel events. (The export is what \<open>toDataURL\<close> makes of the canvas size and
  the painting operations; equal canvases give equal pixels.)
\<close>

theorem exportMask_viewport_independent:
  "(imgObj s1 = imgObj s2 \<and> paths s1 = paths s2 \<longrightarrow>
      getMaskDataURL toDataURL hasContext s1 = getMaskDataURL toDataURL hasContext s2)
   \<and> getMaskDataURL toDataURL hasContext (s\<lparr>scale := k, offset := off\<rparr>)
       = getMaskDataURL toDataURL hasContext s
   \<and> (list_all viewport_event evs \<longrightarrow>
        getMaskDataURL toDataURL hasContext (run s evs) = getMaskDataURL toDataURL hasContext s)"
proof -
  have a: "imgObj s1 = imgObj s2 \<and> paths s1 = paths s2 \<longrightarrow>
      getMaskDataURL toDataURL hasContext s1 = getMaskDataURL toDataURL hasContext s2"
    by (blast intro: getMaskDataURL_cong)
  have b: "getMaskDataURL toDataURL hasContext (s\<lparr>scale := k, offset := off\<rparr>)
       = getMaskDataURL toDataURL hasContext s"
    by (rule getMaskDataURL_cong) simp_all
  have c: "list_all viewport_event evs \<longrightarrow>
        getMaskDataURL toDataURL hasContext (run s evs) = getMaskDataURL toDataURL hasContext s"
  proof
    assume "list_all viewport_event evs"
    from viewport_run_frame [OF this, of s]
    show "getMaskDataURL toDataURL hasContext (run s evs) = getMaskDataURL toDataURL hasContext s"
      by (intro getMaskDataURL_cong) simp_all
  qed
  from a b c show ?thesis by blast
qed

lemma nth_upt_tl: "map ((!) xs) [1 ..< length xs] = tl xs"
  by (simp add: list_eq_iff_nth_eq nth_tl)

lemma foldl_lineTo:
  assumes "curPath c \<noteq> []"
  shows "foldl lineTo c ps = c\<lparr>curPath := butlast (curPath c) @ [last (curPath c) @ ps]\<rparr>"
  using assms
proof (induction ps arbitrary: c)
  case Nil
  then show ?case by simp
next
  case (Cons p ps)
  let ?c = "lineTo c p"
  have l: "?c = c\<lparr>curPath := butlast (curPath c) @ [last (curPath c) @ [p]]\<rparr>"
    using Cons.prems by (simp add: lineTo_def)
  have n: "curPath ?c \<noteq> []" by (simp add: l)
  show ?case
    by (simp add: Cons.IH [OF n]) (simp add: l)
qed

lemma drawMaskPath_eq:
  "drawMaskPath ctx path =
     (if points path = [] then ctx
      else (set_lineWidth ctx (size_path path))
             \<lparr>curPath := [points path],
              drawn := drawn ctx @
                (if 2 \<le> length (points path)
                 then [Stroke (strokeStyle ctx) (lineWidth (set_lineWidth ctx (size_path path)))
                         (lineCap ctx) (lineJoin ctx) [points path]]
                 else [])\<rparr>)"
proof (cases "points path")
  case Nil
  then show ?thesis by (simp add: drawMaskPath_def)
next
  case (Cons p ps)
  let ?c3 = "moveTo (set_lineWidth (beginPath ctx) (size_path path)) (points path ! 0)"
  have c3: "curPath ?c3 = [[p]]"
    by (simp add: moveTo_def set_lineWidth_def beginPath_def Cons)
  have f: "foldl (\<lambda>c i. lineTo c (points path ! i)) ?c3 [1 ..< length (points path)]
             = foldl lineTo ?c3 (map ((!) (points path)) [1 ..< length (points path)])"
    by (simp add: foldl_map)
  have g: "foldl lineTo ?c3 (tl (points path)) = ?c3\<lparr>curPath := [points path]\<rparr>"
    using c3 by (subst foldl_lineTo) (simp_all add: Cons)
  have "drawMaskPath ctx path = stroke (?c3\<lparr>curPath := [points path]\<rparr>)"
    unfolding drawMaskPath_def Let_def f nth_upt_tl g using Cons by simp
  then show ?thesis
    using Cons by (simp add: stroke_def moveTo_def set_lineWidth_def beginPath_def Let_def)
qed

lemma foldl_drawMaskPath:
  assumes "\<forall>p \<in> set ps. 0 < size_path p"
  shows "drawn (foldl drawMaskPath c ps) =
           drawn c @ map (\<lambda>p. Stroke (strokeStyle c) (size_path p) (lineCap c) (lineJoin c) [points p])
                       (filter (\<lambda>p. 2 \<le> length (points p)) ps)
         \<and> strokeStyle (foldl drawMaskPath c ps) = strokeStyle c
         \<and> lineCap (foldl drawMaskPath c ps) = lineCap c
         \<and> lineJoin (foldl drawMaskPath c ps) = lineJoin c
         \<and> fillStyle (foldl drawMaskPath c ps) = fillStyle c
         \<and> canvas_width (foldl drawMaskPath c ps) = canvas_width c
         \<and> canvas_height (foldl drawMaskPath c ps) = canvas_height c"
  using assms
proof (induction ps rule: rev_induct)
  case Nil
  show ?case by simp
next
  case (snoc p ps)
  from snoc.prems have pos: "0 < size_path p" and r: "\<forall>p \<in> set ps. 0 < size_path p"
    by simp_all
  note ih = snoc.IH [OF r]
  show ?case
    using ih pos by (simp add: drawMaskPath_eq set_lineWidth_def)
qed

text \<open>Every committed stroke has a point, and a positive size when the brush sizes are.\<close>

lemma committed_step:
  assumes "\<forall>p \<in> set (paths s). 0 < size_path p \<and> points p \<noteq> []" "brush_event e"
  shows "\<forall>p \<in> set (paths (step s e)). 0 < size_path p \<and> points p \<noteq> []"
proof (cases e)
  case Undo
  then show ?thesis using assms by (auto simp: paths_undo dest: in_set_butlastD)
qed (use assms in \<open>auto simp: imageOnload_def imageCleared_def handlePointerDown_def
      handlePointerMove_def handlePointerUp_def handleWheel_def resetMask_def Let_def
      split: option.splits\<close>)

lemma committed_run:
  assumes "\<forall>p \<in> set (paths s). 0 < size_path p \<and> points p \<noteq> []" "list_all brush_event evs"
  shows "\<forall>p \<in> set (paths (run s evs)). 0 < size_path p \<and> points p \<noteq> []"
  using assms
proof (induction evs arbitrary: s)
  case Nil
  then show ?case by (simp add: run_Nil)
next
  case (Cons e evs)
  from Cons.prems(2) have e: "brush_event e" and r: "list_all brush_event evs" by simp_all
  from Cons.IH [OF committed_step [OF Cons.prems(1) e] r] show ?case by (simp add: run_Cons)
qed

lemma exportMask_drawn:
  assumes "imgObj s = Some img" "\<forall>p \<in> set (paths s). 0 < size_path p"
  shows "\<exists>c. getMaskDataURL (\<lambda>c. c) True s = Some c
             \<and> canvas_width c = width img \<and> canvas_height c = height img
             \<and> drawn c = FillRect ''black'' 0 0 (width img) (height img) #
                 map (\<lambda>p. Stroke ''white'' (size_path p) ''round'' ''round'' [points p])
                   (filter (\<lambda>p. 2 \<le> length (points p)) (paths s))"
proof -
  define c3 where "c3 = (fillRect (createCanvas\<lparr>canvas_width := width img,
      canvas_height := height img, fillStyle := ''black''\<rparr>) 0 0 (width img) (height img))
      \<lparr>lineCap := ''round'', lineJoin := ''round'', strokeStyle := ''white''\<rparr>"
  have g: "getMaskDataURL (\<lambda>c. c) True s = Some (foldl drawMaskPath c3 (paths s))"
    using assms(1) by (simp add: getMaskDataURL_def Let_def c3_def)
  have c3: "drawn c3 = [FillRect ''black'' 0 0 (width img) (height img)]"
    "strokeStyle c3 = ''white''" "lineCap c3 = ''round''" "lineJoin c3 = ''round''"
    "canvas_width c3 = width img" "canvas_height c3 = height img"
    by (simp_all add: c3_def fillRect_def createCanvas_def)
  from foldl_drawMaskPath [OF assms(2), of c3]
  show ?thesis
    unfolding g by (simp add: c3)
qed

text \<open>
  C7, as amended. \<open>getMaskDataURL\<close> returns null when no image is loaded and also when
  the off-screen canvas gives no 2D context, and in no other case. In every state
  reached from the initial one by events whose pointer-ups carry a positive brush size,
  each committed stroke has a point and a positive size; with an image loaded and a
  context, the canvas that is encoded has the width and height of the image, whatever
  the viewport; it was filled black over its whole area, and then every committed
  stroke of two points or more was stroked in white, round caps and joins, in commit
  order, at a line width equal to the stroke's own size. A committed stroke of one
  point gives the canvas a subpath with no line, for which nothing is painted.
\<close>

theorem exportMask_result:
  "(getMaskDataURL toDataURL hasContext s = None \<longleftrightarrow> imgObj s = None \<or> \<not> hasContext)
   \<and> (list_all brush_event evs \<and> imgObj (run init_state evs) = Some img \<longrightarrow>
        (\<exists>c. getMaskDataURL (\<lambda>c. c) True (run init_state evs) = Some c
             \<and> canvas_width c = width img \<and> canvas_height c = height img
             \<and> drawn c = FillRect ''black'' 0 0 (width img) (height img) #
                 map (\<lambda>p. Stroke ''white'' (size_path p) ''round'' ''round'' [points p])
                   (filter (\<lambda>p. 2 \<le> length (points p)) (paths (run init_state evs)))))
   \<and> (list_all brush_event evs \<longrightarrow>
        (\<forall>p \<in> set (paths (run init_state evs)). 0 < size_path p \<and> points p \<noteq> []))"
proof -
  have a: "getMaskDataURL toDataURL hasContext s = None \<longleftrightarrow> imgObj s = None \<or> \<not> hasContext"
    by (cases "imgObj s") (simp_all add: getMaskDataURL_def Let_def)
  have c: "list_all brush_event evs \<longrightarrow>
        (\<forall>p \<in> set (paths (run init_state evs)). 0 < size_path p \<and> points p \<noteq> [])"
  proof
    assume "list_all brush_event evs"
    then show "\<forall>p \<in> set (paths (run init_state evs)). 0 < size_path p \<and> points p \<noteq> []"
      by (intro committed_run) (simp_all add: init_state_def)
  qed
  have b: "list_all brush_event evs \<and> imgObj (run init_state evs) = Some img \<longrightarrow>
        (\<exists>c. getMaskDataURL (\<lambda>c. c) True (run init_state evs) = Some c
             \<and> canvas_width c = width img \<and> canvas_height c = height img
             \<and> drawn c = FillRect ''black'' 0 0 (width img) (height img) #
                 map (\<lambda>p. Stroke ''white'' (size_path p) ''round'' ''round'' [points p])
                   (filter (\<lambda>p. 2 \<le> length (points p)) (paths (run init_state evs))))"
  proof
    assume h: "list_all brush_event evs \<and> imgObj (run init_state evs) = Some img"
    with c have pos: "\<forall>p \<in> set (paths (run init_state evs)). 0 < size_path p" by blast
    from h have i: "imgObj (run init_state evs) = Some img" by simp
    from exportMask_drawn [OF i pos]
    show "\<exists>c. getMaskDataURL (\<lambda>c. c) True (run init_state evs) = Some c
             \<and> canvas_width c = width img \<and> canvas_height c = height img
             \<and> drawn c = FillRect ''black'' 0 0 (width img) (height img) #
                 map (\<lambda>p. Stroke ''white'' (size_path p) ''round'' ''round'' [points p])
                   (filter (\<lambda>p. 2 \<le> length (points p)) (paths (run init_state evs)))" .
  qed
  from a b c show ?thesis by blast
qed

text \<open>
  C7 as stated fails: with an image loaded, \<open>getMaskDataURL\<close> still returns null when
  \<open>getContext('2d')\<close> gave no context.
\<close>

theorem exportMask_null_counterexample:
  "imgObj (init_state\<lparr>imgObj := Some \<lparr>width = 100, height = 100\<rparr>\<rparr>) \<noteq> None
   \<and> getMaskDataURL (\<lambda>c. c) False (init_state\<lparr>imgObj := Some \<lparr>width = 100, height = 100\<rparr>\<rparr>) = None"
  by (simp add: getMaskDataURL_def Let_def)

theorem exportMask_result_witness:
  "list_all brush_event
     [ImageLoaded (Some \<lparr>clientWidth = 100, clientHeight = 100\<rparr>) \<lparr>width = 100, height = 100\<rparr>,
      PointerDown \<lparr>mode = DRAW, brushSize = 10\<rparr> \<lparr>x = 50, y = 50\<rparr>,
      PointerUp \<lparr>mode = DRAW, brushSize = 10\<rparr>,
      PointerDown \<lparr>mode = DRAW, brushSize = 10\<rparr> \<lparr>x = 23, y = 23\<rparr>,
      PointerMove \<lparr>mode = DRAW, brushSize = 10\<rparr> \<lparr>x = 77, y = 77\<rparr>,
      PointerUp \<lparr>mode = DRAW, brushSize = 10\<rparr>]
   \<and> paths (run init_state
     [ImageLoaded (Some \<lparr>clientWidth = 100, clientHeight = 100\<rparr>) \<lparr>width = 100, height = 100\<rparr>,
      PointerDown \<lparr>mode = DRAW, brushSize = 10\<rparr> \<lparr>x = 50, y = 50\<rparr>,
      PointerUp \<lparr>mode = DRAW, brushSize = 10\<rparr>,
      PointerDown \<lparr>mode = DRAW, brushSize = 10\<rparr> \<lparr>x = 23, y = 23\<rparr>,
      PointerMove \<lparr>mode = DRAW, brushSize = 10\<rparr> \<lparr>x = 77, y = 77\<rparr>,
      PointerUp \<lparr>mode = DRAW, brushSize = 10\<rparr>])
     = [\<lparr>points = [\<lparr>x = 50, y = 50\<rparr>], size_path = 10\<rparr>,
        \<lparr>points = [\<lparr>x = 20, y = 20\<rparr>, \<lparr>x = 80, y = 80\<rparr>], size_path = 10\<rparr>]
   \<and> (\<exists>c. getMaskDataURL (\<lambda>c. c) True (run init_state
     [ImageLoaded (Some \<lparr>clientWidth = 100, clientHeight = 100\<rparr>) \<lparr>width = 100, height = 100\<rparr>,
      PointerDown \<lparr>mode = DRAW, brushSize = 10\<rparr> \<lparr>x = 50, y = 50\<rparr>,
      PointerUp \<lparr>mode = DRAW, brushSize = 10\<rparr>,
      PointerDown \<lparr>mode = DRAW, brushSize = 10\<rparr> \<lparr>x = 23, y = 23\<rparr>,
      PointerMove \<lparr>mode = DRAW, brushSize = 10\<rparr> \<lparr>x = 77, y = 77\<rparr>,
      PointerUp \<lparr>mode = DRAW, brushSize = 10\<rparr>]) = Some c
          \<and> canvas_width c = 100 \<and> canvas_height c = 100
          \<and> drawn c = [FillRect ''black'' 0 0 100 100,
                        Stroke ''white'' 10 ''round'' ''round'' [[\<lparr>x = 20, y = 20\<rparr>, \<lparr>x = 80, y = 80\<rparr>]]])"
proof -
  let ?img = "\<lparr>width = 100, height = 100\<rparr>"
  let ?pr = "\<lparr>mode = DRAW, brushSize = 10\<rparr>"
  let ?evs = "[ImageLoaded (Some \<lparr>clientWidth = 100, clientHeight = 100\<rparr>) ?img,
      PointerDown ?pr \<lparr>x = 50, y = 50\<rparr>, PointerUp ?pr,
      PointerDown ?pr \<lparr>x = 23, y = 23\<rparr>, PointerMove ?pr \<lparr>x = 77, y = 77\<rparr>, PointerUp ?pr]"
  have h: "list_all brush_event ?evs" by simp
  have i: "imgObj (run init_state ?evs) = Some ?img"
    by (simp add: run_def init_state_def imageOnload_def handlePointerDown_def
          handlePointerMove_def handlePointerUp_def Let_def)
  have p: "paths (run init_state ?evs)
     = [\<lparr>points = [\<lparr>x = 50, y = 50\<rparr>], size_path = 10\<rparr>,
        \<lparr>points = [\<lparr>x = 20, y = 20\<rparr>, \<lparr>x = 80, y = 80\<rparr>], size_path = 10\<rparr>]"
    by (simp add: run_def init_state_def imageOnload_def handlePointerDown_def
          handlePointerMove_def handlePointerUp_def getCanvasCoords_def Let_def)
  note t = exportMask_result [where evs = ?evs and img = ?img]
  note ex = mp [OF t [THEN conjunct2, THEN conjunct1] conjI [OF h i]]
  from ex have e: "\<exists>c. getMaskDataURL (\<lambda>c. c) True (run init_state ?evs) = Some c
          \<and> canvas_width c = 100 \<and> canvas_height c = 100
          \<and> drawn c = [FillRect ''black'' 0 0 100 100,
                        Stroke ''white'' 10 ''round'' ''round'' [[\<lparr>x = 20, y = 20\<rparr>, \<lparr>x = 80, y = 80\<rparr>]]]"
    unfolding p by simp
  from h p e show ?thesis by (intro conjI)
qed

theorem exportMask_viewport_independent_witness:
  "list_all viewport_event
     [Wheel \<lparr>x = 5, y = 5\<rparr> (- 500), PointerDown \<lparr>mode = PAN, brushSize = 40\<rparr> \<lparr>x = 1, y = 1\<rparr>,
      PointerMove \<lparr>mode = PAN, brushSize = 40\<rparr> \<lparr>x = 11, y = 21\<rparr>, PointerUp \<lparr>mode = PAN, brushSize = 40\<rparr>]
   \<and> getMaskDataURL (\<lambda>c. c) True
       (run (init_state\<lparr>imgObj := Some \<lparr>width = 100, height = 100\<rparr>,
               paths := [\<lparr>points = [\<lparr>x = 20, y = 20\<rparr>, \<lparr>x = 80, y = 80\<rparr>], size_path = 10\<rparr>]\<rparr>)
          [Wheel \<lparr>x = 5, y = 5\<rparr> (- 500), PointerDown \<lparr>mode = PAN, brushSize = 40\<rparr> \<lparr>x = 1, y = 1\<rparr>,
           PointerMove \<lparr>mode = PAN, brushSize = 40\<rparr> \<lparr>x = 11, y = 21\<rparr>, PointerUp \<lparr>mode = PAN, brushSize = 40\<rparr>])
     = getMaskDataURL (\<lambda>c. c) True
       (init_state\<lparr>imgObj := Some \<lparr>width = 100, height = 100\<rparr>,
               paths := [\<lparr>points = [\<lparr>x = 20, y = 20\<rparr>, \<lparr>x = 80, y = 80\<rparr>], size_path = 10\<rparr>]\<rparr>)
   \<and> scale (run (init_state\<lparr>imgObj := Some \<lparr>width = 100, height = 100\<rparr>,
               paths := [\<lparr>points = [\<lparr>x = 20, y = 20\<rparr>, \<lparr>x = 80, y = 80\<rparr>], size_path = 10\<rparr>]\<rparr>)
          [Wheel \<lparr>x = 5, y = 5\<rparr> (- 500), PointerDown \<lparr>mode = PAN, brushSize = 40\<rparr> \<lparr>x = 1, y = 1\<rparr>,
           PointerMove \<lparr>mode = PAN, brushSize = 40\<rparr> \<lparr>x = 11, y = 21\<rparr>, PointerUp \<lparr>mode = PAN, brushSize = 40\<rparr>])
     = 1.5"
proof -
  let ?S = "init_state\<lparr>imgObj := Some \<lparr>width = 100, height = 100\<rparr>,
               paths := [\<lparr>points = [\<lparr>x = 20, y = 20\<rparr>, \<lparr>x = 80, y = 80\<rparr>], size_path = 10\<rparr>]\<rparr>"
  let ?evs = "[Wheel \<lparr>x = 5, y = 5\<rparr> (- 500), PointerDown \<lparr>mode = PAN, brushSize = 40\<rparr> \<lparr>x = 1, y = 1\<rparr>,
      PointerMove \<lparr>mode = PAN, brushSize = 40\<rparr> \<lparr>x = 11, y = 21\<rparr>, PointerUp \<lparr>mode = PAN, brushSize = 40\<rparr>]"
  have h: "list_all viewport_event ?evs" by simp
  note t = exportMask_viewport_independent
    [where toDataURL = "\<lambda>c. c" and hasContext = True and evs = ?evs and s = ?S]
  note e = mp [OF t [THEN conjunct2, THEN conjunct2] h]
  have v: "scale (run ?S ?evs) = 1.5"
    by (simp add: run_def handleWheel_def handlePointerDown_def handlePointerMove_def
          handlePointerUp_def init_state_def Let_def)
  from h e v show ?thesis by (intro conjI)
qed

end
